theory Spec2Isabelle
  imports Complex_Main "HOL-Library.Log_Nat"
begin

section \<open>The game state of script.js\<close>

text \<open>
  The global object \<open>gameState\<close> (script.js, lines 7 to 17). Its eight counters start at
  0 and are only ever incremented by one or set back to 0, so they hold natural numbers.
  In the source a counter is a double, which holds every integer up to \<open>2 ^ 53\<close>
  exactly; where the counting is done, it is modelled both in natural numbers
  (\<open>updateGameState\<close>) and in doubles (\<open>updateGameState_double\<close>).
\<close>

record gameState =
  playerScore :: nat
  computerScore :: nat
  gamesPlayed :: nat
  wins :: nat
  losses :: nat
  ties :: nat
  currentStreak :: nat
  bestStreak :: nat
  isPlaying :: bool

definition gameState_init :: gameState where
  "gameState_init =
     \<lparr>playerScore = 0, computerScore = 0, gamesPlayed = 0, wins = 0, losses = 0,
      ties = 0, currentStreak = 0, bestStreak = 0, isPlaying = False\<rparr>"

subsection \<open>Constants\<close>

text \<open>Choices and results are the strings of the source (lines 20 and 27 to 31).\<close>

definition CHOICES :: "string list" where
  "CHOICES = [''rock'', ''paper'', ''scissors'']"

definition RESULTS_WIN :: string where
  "RESULTS_WIN = ''win''"

definition RESULTS_LOSE :: string where
  "RESULTS_LOSE = ''lose''"

definition RESULTS_TIE :: string where
  "RESULTS_TIE = ''tie''"

section \<open>Game logic\<close>

subsection \<open>determineWinner (lines 73 to 89)\<close>

text \<open>
  The object literal \<open>winConditions\<close> is a dictionary from a choice to the choice it
  beats. A key that is not in it reads as \<open>undefined\<close>, which is not equal to any
  string: the lookup is \<open>None\<close>.
\<close>

definition winConditions :: "string \<rightharpoonup> string" where
  "winConditions =
     [''rock'' \<mapsto> ''scissors'', ''paper'' \<mapsto> ''rock'', ''scissors'' \<mapsto> ''paper'']"

definition determineWinner :: "string \<Rightarrow> string \<Rightarrow> string" where
  "determineWinner playerChoice computerChoice =
     (if playerChoice = computerChoice then RESULTS_TIE
      else if winConditions playerChoice = Some computerChoice then RESULTS_WIN
      else RESULTS_LOSE)"

subsection \<open>updateGameState (lines 105 to 127)\<close>

text \<open>
  \<open>gamesPlayed\<close> is incremented before the \<open>switch\<close>; a result that matches no
  \<open>case\<close> label changes nothing else. Here \<open>++\<close> adds one to a natural number;
  \<open>updateGameState_double\<close> below is the same function with \<open>++\<close> on doubles, which
  the page calls, and the two agree while the counters are below \<open>2 ^ 53\<close>.
\<close>

definition updateGameState :: "string \<Rightarrow> gameState \<Rightarrow> gameState" where
  "updateGameState result gs =
     (let g = gs\<lparr>gamesPlayed := gamesPlayed gs + 1\<rparr>
      in if result = RESULTS_WIN then
           (let g' = g\<lparr>playerScore := playerScore g + 1, wins := wins g + 1,
                        currentStreak := currentStreak g + 1\<rparr>
            in if currentStreak g' > bestStreak g'
               then g'\<lparr>bestStreak := currentStreak g'\<rparr> else g')
         else if result = RESULTS_LOSE then
           g\<lparr>computerScore := computerScore g + 1, losses := losses g + 1,
             currentStreak := 0\<rparr>
         else if result = RESULTS_TIE then
           g\<lparr>ties := ties g + 1\<rparr>
         else g)"

text \<open>A sequence of calls of \<open>updateGameState\<close>, one per recorded round, in order.\<close>

fun recordRounds :: "string list \<Rightarrow> gameState \<Rightarrow> gameState" where
  "recordRounds [] gs = gs"
| "recordRounds (result # results) gs = recordRounds results (updateGameState result gs)"

subsection \<open>calculateWinRate (lines 133 to 137)\<close>

text \<open>
  A JavaScript number is an IEEE 754 double: an integer significand of at most 53 bits
  times a power of two. \<open>/\<close> and \<open>*\<close> each return the double nearest to the exact
  result, a tie going to the even significand. \<open>round_double x\<close> is that double for a
  rational \<open>x\<close> of the normal range (\<open>\<bar>x\<bar>\<close> from \<open>1 / 2 ^ 1022\<close> up to, and
  excluding, \<open>2 ^ 1024\<close>); the quotients and percentages of counters are in that
  range, and a counter below \<open>2 ^ 53\<close> is a double itself.

  \<open>round_ties_even x\<close> is the integer nearest to \<open>x\<close>, the even one of two equally
  near; \<open>binade x\<close> is, for positive \<open>x\<close>, the exponent \<open>e\<close> with
  \<open>2 ^ e \<le> x < 2 ^ (e + 1)\<close>, so that \<open>round_double\<close> rounds a significand between
  \<open>2 ^ 52\<close> and \<open>2 ^ 53\<close>.
\<close>

definition round_ties_even :: "rat \<Rightarrow> int" where
  "round_ties_even x =
     (let n = \<lfloor>x\<rfloor>; d = x - of_int n
      in if d < 1 / 2 then n else if 1 / 2 < d then n + 1
         else if even n then n else n + 1)"

definition binade :: "rat \<Rightarrow> int" where
  "binade x =
     (case quotient_of x of (a, b) \<Rightarrow>
        let d = bitlen a - bitlen b in if 2 powi d \<le> x then d else d - 1)"

definition round_double :: "rat \<Rightarrow> rat" where
  "round_double x =
     (if x = 0 then 0
      else let e = binade \<bar>x\<bar> - 52
           in sgn x * of_int (round_ties_even (\<bar>x\<bar> / 2 powi e)) * 2 powi e)"

text \<open>
  \<open>Math.round\<close> returns the integer nearest to its argument, the larger one of two
  equally near.
\<close>

definition Math_round :: "rat \<Rightarrow> int" where
  "Math_round x = \<lfloor>x + 1 / 2\<rfloor>"

definition calculateWinRate :: "gameState \<Rightarrow> int" where
  "calculateWinRate gs =
     (if gamesPlayed gs = 0 then 0
      else let winRate =
                 round_double (round_double (of_nat (wins gs) / of_nat (gamesPlayed gs)) * 100)
           in Math_round winRate)"

text \<open>
  The win rate in the words of the specification: the exact quotient
  \<open>100 * wins / gamesPlayed\<close>, rounded half up.
\<close>

definition round_half_up :: "rat \<Rightarrow> int" where
  "round_half_up x = \<lfloor>x + 1 / 2\<rfloor>"

definition winRate_spec :: "gameState \<Rightarrow> int" where
  "winRate_spec gs =
     (if gamesPlayed gs = 0 then 0
      else round_half_up (100 * of_nat (wins gs) / of_nat (gamesPlayed gs)))"

subsection \<open>updateGameState with the counters as doubles\<close>

text \<open>
  The counters of the source are doubles, and \<open>x++\<close> stores the double nearest to
  \<open>x + 1\<close>. \<open>increment n\<close> is that double for a counter holding the integer \<open>n\<close>:
  it is \<open>n + 1\<close> while \<open>n\<close> is below \<open>2 ^ 53\<close>, and at \<open>2 ^ 53\<close> it is \<open>2 ^ 53\<close>
  again. \<open>updateGameState_double\<close> is \<open>updateGameState\<close> with every \<open>++\<close> computed
  so, and \<open>recordRounds_double\<close> a sequence of such calls. \<open>counters_exact\<close> says that
  every counter that \<open>updateGameState\<close> increments is below \<open>2 ^ 53\<close>; in such a state
  the two functions agree, and so they do along every sequence of at most \<open>2 ^ 53\<close>
  rounds from the zero state.
\<close>

definition increment :: "nat \<Rightarrow> nat" where
  "increment n = nat \<lfloor>round_double (of_nat n + 1)\<rfloor>"

definition updateGameState_double :: "string \<Rightarrow> gameState \<Rightarrow> gameState" where
  "updateGameState_double result gs =
     (let g = gs\<lparr>gamesPlayed := increment (gamesPlayed gs)\<rparr>
      in if result = RESULTS_WIN then
           (let g' = g\<lparr>playerScore := increment (playerScore g), wins := increment (wins g),
                        currentStreak := increment (currentStreak g)\<rparr>
            in if currentStreak g' > bestStreak g'
               then g'\<lparr>bestStreak := currentStreak g'\<rparr> else g')
         else if result = RESULTS_LOSE then
           g\<lparr>computerScore := increment (computerScore g), losses := increment (losses g),
             currentStreak := 0\<rparr>
         else if result = RESULTS_TIE then
           g\<lparr>ties := increment (ties g)\<rparr>
         else g)"

fun recordRounds_double :: "string list \<Rightarrow> gameState \<Rightarrow> gameState" where
  "recordRounds_double [] gs = gs"
| "recordRounds_double (result # results) gs =
     recordRounds_double results (updateGameState_double result gs)"

definition counters_at_most :: "nat \<Rightarrow> gameState \<Rightarrow> bool" where
  "counters_at_most n gs =
     (playerScore gs \<le> n \<and> computerScore gs \<le> n \<and> gamesPlayed gs \<le> n \<and> wins gs \<le> n
      \<and> losses gs \<le> n \<and> ties gs \<le> n \<and> currentStreak gs \<le> n)"

definition counters_exact :: "gameState \<Rightarrow> bool" where
  "counters_exact gs = counters_at_most (2 ^ 53 - 1) gs"

section \<open>The page: game state, local storage and suspended rounds\<close>

text \<open>
  The text stored under the key \<open>rpsGameState\<close> is modelled by what \<open>JSON.parse\<close>
  makes of it: the empty string, a text that is not JSON (such as a lone opening
  brace), or a JSON text together with the object it denotes. Of that object only the nine properties of \<open>gameState\<close>
  matter to \<open>Object.assign\<close>; each is present or absent (a JSON text that denotes no
  object has none of them). Properties holding values of another type than the
  counters and the flag are outside the model.
\<close>

record savedState =
  saved_playerScore :: "nat option"
  saved_computerScore :: "nat option"
  saved_gamesPlayed :: "nat option"
  saved_wins :: "nat option"
  saved_losses :: "nat option"
  saved_ties :: "nat option"
  saved_currentStreak :: "nat option"
  saved_bestStreak :: "nat option"
  saved_isPlaying :: "bool option"

datatype storedText = Empty_text | Invalid_json | Json_text savedState

datatype js_error = SyntaxError

definition JSON_stringify :: "gameState \<Rightarrow> storedText" where
  "JSON_stringify gs =
     Json_text
       \<lparr>saved_playerScore = Some (playerScore gs),
        saved_computerScore = Some (computerScore gs),
        saved_gamesPlayed = Some (gamesPlayed gs),
        saved_wins = Some (wins gs),
        saved_losses = Some (losses gs),
        saved_ties = Some (ties gs),
        saved_currentStreak = Some (currentStreak gs),
        saved_bestStreak = Some (bestStreak gs),
        saved_isPlaying = Some (isPlaying gs)\<rparr>"

fun JSON_parse :: "storedText \<Rightarrow> js_error + savedState" where
  "JSON_parse Empty_text = Inl SyntaxError"
| "JSON_parse Invalid_json = Inl SyntaxError"
| "JSON_parse (Json_text obj) = Inr obj"

text \<open>One property of \<open>Object.assign\<close>: the source's value when it has the property.\<close>

fun assigned :: "'a \<Rightarrow> 'a option \<Rightarrow> 'a" where
  "assigned old None = old"
| "assigned old (Some v) = v"

definition Object_assign :: "gameState \<Rightarrow> savedState \<Rightarrow> gameState" where
  "Object_assign target source =
     \<lparr>playerScore = assigned (playerScore target) (saved_playerScore source),
      computerScore = assigned (computerScore target) (saved_computerScore source),
      gamesPlayed = assigned (gamesPlayed target) (saved_gamesPlayed source),
      wins = assigned (wins target) (saved_wins source),
      losses = assigned (losses target) (saved_losses source),
      ties = assigned (ties target) (saved_ties source),
      currentStreak = assigned (currentStreak target) (saved_currentStreak source),
      bestStreak = assigned (bestStreak target) (saved_bestStreak source),
      isPlaying = assigned (isPlaying target) (saved_isPlaying source)\<rparr>"

text \<open>
  The page holds the game state, the item of \<open>localStorage\<close> under the key
  \<open>rpsGameState\<close> (\<open>None\<close> when \<open>getItem\<close> returns \<open>null\<close>), and the calls of
  \<open>playRound\<close> that are suspended at \<open>await delay(800)\<close>, each with its
  \<open>playerChoice\<close>, oldest first (their timers have the same delay). The DOM is not
  modelled, and \<open>setItem\<close> and \<open>removeItem\<close> are taken to succeed.
\<close>

record page =
  game :: gameState
  rpsGameState :: "storedText option"
  awaiting :: "string list"

subsection \<open>saveGame (lines 292 to 294) and loadGame (lines 299 to 306)\<close>

definition saveGame :: "page \<Rightarrow> page" where
  "saveGame p = p\<lparr>rpsGameState := Some (JSON_stringify (game p))\<rparr>"

text \<open>
  \<open>if (savedState)\<close> is false for \<open>null\<close> and for the empty string. An exception of
  \<open>JSON.parse\<close> is not caught: it leaves \<open>loadGame\<close>, before \<open>Object.assign\<close> and
  \<open>updateUI\<close> are reached. A call that throws is \<open>Inl\<close> of the exception and the page
  as it is at the throw; a call that returns is \<open>Inr\<close> of the page as it is then.
\<close>

definition loadGame :: "page \<Rightarrow> (js_error \<times> page) + page" where
  "loadGame p =
     (case rpsGameState p of
        None \<Rightarrow> Inr p
      | Some savedState \<Rightarrow>
          if savedState = Empty_text then Inr p
          else (case JSON_parse savedState of
                  Inl err \<Rightarrow> Inl (err, p)
                | Inr parsed \<Rightarrow> Inr (p\<lparr>game := Object_assign (game p) parsed\<rparr>)))"

subsection \<open>resetGame (lines 256 to 276)\<close>

definition resetGame :: "page \<Rightarrow> page" where
  "resetGame p =
     p\<lparr>game := (game p)\<lparr>playerScore := 0, computerScore := 0, gamesPlayed := 0, wins := 0,
                      losses := 0, ties := 0, currentStreak := 0\<rparr>,
       rpsGameState := None\<rparr>"

subsection \<open>playRound (lines 217 to 251)\<close>

text \<open>
  \<open>playRound\<close> is an \<open>async\<close> function. A call runs to \<open>await delay(800)\<close> and is
  suspended there; when the delay has elapsed it runs from line 234 to its end.
  \<open>playRound\<close> is the first part, \<open>playRound_resume\<close> the second, with the value
  that \<open>getComputerChoice()\<close> returns as an argument. The page counts in doubles.
\<close>

definition playRound :: "string \<Rightarrow> page \<Rightarrow> page" where
  "playRound playerChoice p =
     (if isPlaying (game p) then p
      else p\<lparr>game := (game p)\<lparr>isPlaying := True\<rparr>, awaiting := awaiting p @ [playerChoice]\<rparr>)"

definition playRound_resume :: "string \<Rightarrow> string \<Rightarrow> page \<Rightarrow> page" where
  "playRound_resume playerChoice computerChoice p =
     (let result = determineWinner playerChoice computerChoice;
          p1 = p\<lparr>game := updateGameState_double result (game p)\<rparr>;
          p2 = saveGame p1
      in p2\<lparr>game := (game p2)\<lparr>isPlaying := False\<rparr>\<rparr>)"

subsection \<open>Events (lines 313 to 357)\<close>

text \<open>
  The \<open>keydown\<close> listener, on the key in lower case.
\<close>

definition keydown :: "string \<Rightarrow> page \<Rightarrow> page" where
  "keydown key p =
     (if isPlaying (game p) then p
      else if key = ''r'' \<or> key = ''1'' then playRound ''rock'' p
      else if key = ''p'' \<or> key = ''2'' then playRound ''paper'' p
      else if key = ''s'' \<or> key = ''3'' then playRound ''scissors'' p
      else if key = ''escape'' then resetGame p
      else p)"

text \<open>
  What can happen on a page once \<open>init\<close> has registered the listeners: a click on the
  button of a choice, a click on the reset button, a key, or the delay of the oldest
  suspended round elapsing (with the computer's choice).
\<close>

datatype event =
    Click_choice string
  | Click_reset
  | Keydown string
  | Delay_elapsed string

fun fire :: "event \<Rightarrow> page \<Rightarrow> page" where
  "fire (Click_choice playerChoice) p = playRound playerChoice p"
| "fire Click_reset p = resetGame p"
| "fire (Keydown key) p = keydown key p"
| "fire (Delay_elapsed computerChoice) p =
     (case awaiting p of
        [] \<Rightarrow> p
      | playerChoice # rest \<Rightarrow> playRound_resume playerChoice computerChoice (p\<lparr>awaiting := rest\<rparr>))"

fun run :: "event list \<Rightarrow> page \<Rightarrow> page" where
  "run [] p = p"
| "run (e # es) p = run es (fire e p)"

text \<open>
  \<open>init\<close> on a freshly loaded page with the given stored item: \<open>loadGame\<close>, then the
  listeners are registered. When \<open>loadGame\<close> throws, \<open>init\<close> ends there, with no
  listener registered: no event of the page reaches the game.
\<close>

definition init :: "storedText option \<Rightarrow> (js_error \<times> page) + page" where
  "init stored = loadGame \<lparr>game = gameState_init, rpsGameState = stored, awaiting = []\<rparr>"

subsection \<open>Pages and stored items that occur\<close>

text \<open>
  \<open>first_visit\<close> is the page of a first visit: nothing stored, no round played.
  \<open>guarded\<close> says that at most one round is suspended and that the flag
  \<open>isPlaying\<close> is set while one is; \<open>guard_saved\<close> says that the stored item, if
  there is one, is a JSON text whose \<open>isPlaying\<close> is \<open>true\<close>; \<open>stuck\<close> says that
  the flag is set although no round is suspended.
\<close>

definition first_visit :: page where
  "first_visit = \<lparr>game = gameState_init, rpsGameState = None, awaiting = []\<rparr>"

definition guarded :: "page \<Rightarrow> bool" where
  "guarded p = (awaiting p = [] \<or> (isPlaying (game p) \<and> length (awaiting p) = 1))"

definition guard_saved :: "storedText option \<Rightarrow> bool" where
  "guard_saved stored =
     (case stored of
        None \<Rightarrow> True
      | Some t \<Rightarrow> (case JSON_parse t of Inl err \<Rightarrow> False
                                     | Inr obj \<Rightarrow> saved_isPlaying obj = Some True))"

definition stuck :: "page \<Rightarrow> bool" where
  "stuck p = (isPlaying (game p) \<and> awaiting p = [])"

section \<open>The round resolver\<close>

lemma winConditions_rock: "winConditions ''rock'' = Some ''scissors''"
  by (simp add: winConditions_def)

lemma winConditions_paper: "winConditions ''paper'' = Some ''rock''"
  by (simp add: winConditions_def)

lemma winConditions_scissors: "winConditions ''scissors'' = Some ''paper''"
  by (simp add: winConditions_def)

lemmas winConditions_simps = winConditions_rock winConditions_paper winConditions_scissors

lemma in_CHOICES: "c \<in> set CHOICES \<longleftrightarrow> c = ''rock'' \<or> c = ''paper'' \<or> c = ''scissors''"
  by (simp add: CHOICES_def)

lemma RESULTS_distinct:
  "RESULTS_WIN \<noteq> RESULTS_LOSE" "RESULTS_WIN \<noteq> RESULTS_TIE" "RESULTS_LOSE \<noteq> RESULTS_TIE"
  "RESULTS_LOSE \<noteq> RESULTS_WIN" "RESULTS_TIE \<noteq> RESULTS_WIN" "RESULTS_TIE \<noteq> RESULTS_LOSE"
  by (simp_all add: RESULTS_WIN_def RESULTS_LOSE_def RESULTS_TIE_def)

lemma determineWinner_eval:
  "determineWinner ''rock'' ''rock'' = RESULTS_TIE"
  "determineWinner ''rock'' ''paper'' = RESULTS_LOSE"
  "determineWinner ''rock'' ''scissors'' = RESULTS_WIN"
  "determineWinner ''paper'' ''rock'' = RESULTS_WIN"
  "determineWinner ''paper'' ''paper'' = RESULTS_TIE"
  "determineWinner ''paper'' ''scissors'' = RESULTS_LOSE"
  "determineWinner ''scissors'' ''rock'' = RESULTS_LOSE"
  "determineWinner ''scissors'' ''paper'' = RESULTS_WIN"
  "determineWinner ''scissors'' ''scissors'' = RESULTS_TIE"
  by (simp_all add: determineWinner_def winConditions_simps)

text \<open>
  Claim C4. On the three by three grid of choices \<open>determineWinner\<close> returns the tie
  result when both choices are equal; otherwise it returns the win result exactly when
  the pair (player, computer) is (rock, scissors), (paper, rock) or (scissors, paper),
  and the lose result in every remaining case.
\<close>

theorem determineWinner_grid:
  assumes "p \<in> set CHOICES" and "c \<in> set CHOICES"
  shows "determineWinner p c =
           (if p = c then RESULTS_TIE
            else if (p, c) \<in> {(''rock'', ''scissors''), (''paper'', ''rock''),
                               (''scissors'', ''paper'')}
            then RESULTS_WIN else RESULTS_LOSE)"
proof -
  have p: "p = ''rock'' \<or> p = ''paper'' \<or> p = ''scissors''"
    using assms(1) by (simp add: in_CHOICES)
  have c: "c = ''rock'' \<or> c = ''paper'' \<or> c = ''scissors''"
    using assms(2) by (simp add: in_CHOICES)
  from p c show ?thesis
    by (elim disjE) (simp_all add: determineWinner_eval)
qed

theorem determineWinner_grid_witness:
  "''paper'' \<in> set CHOICES \<and> ''rock'' \<in> set CHOICES
   \<and> determineWinner ''paper'' ''rock'' = RESULTS_WIN"
  using determineWinner_grid [of "''paper''" "''rock''"]
  by (simp add: in_CHOICES)

text \<open>
  Claim C7. For every pair of choices \<open>(a, b)\<close>, \<open>determineWinner a b\<close> is the win
  result if and only if \<open>determineWinner b a\<close> is the lose result; and every pair gets
  exactly one of the three results: the result is one of win, lose and tie, and these
  three are pairwise different.
\<close>

theorem determineWinner_antisymmetric:
  assumes "a \<in> set CHOICES" and "b \<in> set CHOICES"
  shows "(determineWinner a b = RESULTS_WIN \<longleftrightarrow> determineWinner b a = RESULTS_LOSE)
         \<and> determineWinner a b \<in> {RESULTS_WIN, RESULTS_LOSE, RESULTS_TIE}
         \<and> distinct [RESULTS_WIN, RESULTS_LOSE, RESULTS_TIE]"
proof -
  have a: "a = ''rock'' \<or> a = ''paper'' \<or> a = ''scissors''"
    using assms(1) by (simp add: in_CHOICES)
  have b: "b = ''rock'' \<or> b = ''paper'' \<or> b = ''scissors''"
    using assms(2) by (simp add: in_CHOICES)
  from a b show ?thesis
    by (elim disjE) (simp_all add: determineWinner_eval RESULTS_distinct)
qed

theorem determineWinner_antisymmetric_witness:
  "''rock'' \<in> set CHOICES \<and> ''scissors'' \<in> set CHOICES
   \<and> determineWinner ''rock'' ''scissors'' = RESULTS_WIN
   \<and> determineWinner ''scissors'' ''rock'' = RESULTS_LOSE"
  using determineWinner_antisymmetric [of "''rock''" "''scissors''"]
  by (simp add: in_CHOICES determineWinner_eval)

section \<open>The session tracker\<close>

lemma updateGameState_win:
  "updateGameState RESULTS_WIN gs =
     gs\<lparr>gamesPlayed := gamesPlayed gs + 1, playerScore := playerScore gs + 1,
        wins := wins gs + 1, currentStreak := currentStreak gs + 1,
        bestStreak := max (bestStreak gs) (currentStreak gs + 1)\<rparr>"
  by (simp add: updateGameState_def Let_def max_def)

lemma updateGameState_lose:
  "updateGameState RESULTS_LOSE gs =
     gs\<lparr>gamesPlayed := gamesPlayed gs + 1, computerScore := computerScore gs + 1,
        losses := losses gs + 1, currentStreak := 0\<rparr>"
  by (simp add: updateGameState_def Let_def RESULTS_distinct)

lemma updateGameState_tie:
  "updateGameState RESULTS_TIE gs =
     gs\<lparr>gamesPlayed := gamesPlayed gs + 1, ties := ties gs + 1\<rparr>"
  by (simp add: updateGameState_def Let_def RESULTS_distinct)

lemma updateGameState_other:
  "result \<noteq> RESULTS_WIN \<Longrightarrow> result \<noteq> RESULTS_LOSE \<Longrightarrow> result \<noteq> RESULTS_TIE \<Longrightarrow>
   updateGameState result gs = gs\<lparr>gamesPlayed := gamesPlayed gs + 1\<rparr>"
  by (simp add: updateGameState_def Let_def)





section \<open>Doubles\<close>

text \<open>
  \<open>binade\<close> is the exponent it is meant to be, the significand of \<open>round_double x\<close>
  lies between \<open>2 ^ 52\<close> and \<open>2 ^ 53\<close>, and \<open>round_double x\<close> differs from \<open>x\<close> by
  at most \<open>\<bar>x\<bar> / 2 ^ 53\<close>, since rounding the significand to an integer moves it by
  at most a half.
\<close>

lemma round_ties_even_error: "\<bar>of_int (round_ties_even x) - x\<bar> \<le> 1 / 2"
proof -
  have "of_int \<lfloor>x\<rfloor> \<le> x" "x < of_int \<lfloor>x\<rfloor> + 1"
    by linarith+
  then show ?thesis
    by (auto simp: round_ties_even_def Let_def)
qed

lemma round_ties_even_nonneg: "0 \<le> x \<Longrightarrow> 0 \<le> round_ties_even x"
proof -
  assume "0 \<le> x"
  then have "0 \<le> \<lfloor>x\<rfloor>" by simp
  then show ?thesis
    by (auto simp: round_ties_even_def Let_def)
qed

lemma bitlen_powi_bounds:
  assumes "0 < (a::int)"
  shows "(2::rat) powi (bitlen a - 1) \<le> of_int a" and "of_int a < (2::rat) powi (bitlen a)"
proof -
  from bitlen_bounds [OF assms]
  have lo: "2 ^ nat (bitlen a - 1) \<le> a" and hi: "a < 2 ^ nat (bitlen a)"
    by simp_all
  from assms have pos: "1 \<le> bitlen a"
    using bitlen_eq_zero_iff [of a] bitlen_nonneg [of a] by linarith
  have "(of_int (2 ^ nat (bitlen a - 1)) :: rat) \<le> of_int a"
    using lo by (simp only: of_int_le_iff)
  with pos show "(2::rat) powi (bitlen a - 1) \<le> of_int a"
    by (simp add: power_int_def)
  have "(of_int a :: rat) < of_int (2 ^ nat (bitlen a))"
    using hi by (simp only: of_int_less_iff)
  with pos show "of_int a < (2::rat) powi (bitlen a)"
    by (simp add: power_int_def)
qed

lemma binade_bounds:
  assumes "0 < x"
  shows "2 powi (binade x) \<le> x" and "x < 2 powi (binade x + 1)"
proof -
  obtain a b where q: "quotient_of x = (a, b)"
    by (cases "quotient_of x")
  then have b: "0 < b" and x: "x = of_int a / of_int b"
    by (simp_all add: quotient_of_denom_pos quotient_of_div)
  from assms x b have a: "0 < a"
    by (simp add: zero_less_divide_iff)
  define d where "d = bitlen a - bitlen b"
  have bin: "binade x = (if 2 powi d \<le> x then d else d - 1)"
    by (simp add: binade_def q d_def Let_def)
  note A = bitlen_powi_bounds [OF a]
  note B = bitlen_powi_bounds [OF b]
  have brat: "(0::rat) < of_int b" using b by simp
  have lo: "2 powi (d - 1) \<le> x"
  proof -
    have "(2::rat) powi (d - 1) * of_int b \<le> 2 powi (d - 1) * 2 powi (bitlen b)"
      using B(2) by (intro mult_left_mono) simp_all
    also have "\<dots> = 2 powi (bitlen a - 1)"
      by (simp add: d_def power_int_add [symmetric])
    also have "\<dots> \<le> of_int a" by (rule A(1))
    finally show ?thesis
      using brat by (simp add: x pos_le_divide_eq)
  qed
  have hi: "x < 2 powi (d + 1)"
  proof -
    have "(of_int a :: rat) < 2 powi (bitlen a)" by (rule A(2))
    also have "\<dots> = 2 powi (d + 1) * 2 powi (bitlen b - 1)"
      by (simp add: d_def power_int_add [symmetric])
    also have "\<dots> \<le> 2 powi (d + 1) * of_int b"
      using B(1) by (intro mult_left_mono) simp_all
    finally show ?thesis
      using brat by (simp add: x pos_divide_less_eq)
  qed
  show "2 powi (binade x) \<le> x"
    using lo by (simp add: bin)
  show "x < 2 powi (binade x + 1)"
    using hi by (auto simp: bin not_le)
qed

lemma round_ties_even_floor:
  "\<lfloor>x\<rfloor> \<le> round_ties_even x" "round_ties_even x \<le> \<lfloor>x\<rfloor> + 1"
  by (simp_all add: round_ties_even_def Let_def)

lemma round_double_significand:
  assumes "x \<noteq> 0"
  shows "round_double x
           = sgn x * of_int (round_ties_even (\<bar>x\<bar> / 2 powi (binade \<bar>x\<bar> - 52)))
               * 2 powi (binade \<bar>x\<bar> - 52)"
    and "2 ^ 52 \<le> round_ties_even (\<bar>x\<bar> / 2 powi (binade \<bar>x\<bar> - 52))"
    and "round_ties_even (\<bar>x\<bar> / 2 powi (binade \<bar>x\<bar> - 52)) \<le> 2 ^ 53"
proof -
  define a where "a = \<bar>x\<bar>"
  define z where "z = a / 2 powi (binade a - 52)"
  have a: "0 < a" using assms by (simp add: a_def)
  have pw: "(2::rat) powi (binade a - 52) = 2 powi (binade a) / 2 ^ 52"
    by (simp add: power_int_diff)
  have pb: "(0::rat) < 2 powi (binade a)" by simp
  have "2 powi (binade a) \<le> a" by (rule binade_bounds(1) [OF a])
  then have lo: "2 ^ 52 \<le> z"
    using pb by (simp add: z_def pw pos_le_divide_eq)
  have "a < 2 powi (binade a + 1)" by (rule binade_bounds(2) [OF a])
  also have "\<dots> = 2 powi (binade a) * 2"
    by (simp add: power_int_add)
  finally have hi: "z < 2 ^ 53"
    using pb by (simp add: z_def pw pos_divide_less_eq)
  from lo have "(of_int (2 ^ 52) :: rat) \<le> z" by simp
  then have "2 ^ 52 \<le> \<lfloor>z\<rfloor>" by (simp only: le_floor_iff)
  with round_ties_even_floor(1) [of z] have m_lo: "2 ^ 52 \<le> round_ties_even z"
    by linarith
  from hi have "z < of_int (2 ^ 53)" by simp
  then have "\<lfloor>z\<rfloor> < 2 ^ 53" by (simp only: floor_less_iff)
  with round_ties_even_floor(2) [of z] have m_hi: "round_ties_even z \<le> 2 ^ 53"
    by linarith
  show "round_double x
           = sgn x * of_int (round_ties_even (\<bar>x\<bar> / 2 powi (binade \<bar>x\<bar> - 52)))
               * 2 powi (binade \<bar>x\<bar> - 52)"
    using assms by (simp add: round_double_def Let_def)
  show "2 ^ 52 \<le> round_ties_even (\<bar>x\<bar> / 2 powi (binade \<bar>x\<bar> - 52))"
    using m_lo by (simp add: z_def a_def)
  show "round_ties_even (\<bar>x\<bar> / 2 powi (binade \<bar>x\<bar> - 52)) \<le> 2 ^ 53"
    using m_hi by (simp add: z_def a_def)
qed

lemma round_double_nonneg: "0 \<le> x \<Longrightarrow> 0 \<le> round_double x"
  by (simp add: round_double_def Let_def round_ties_even_nonneg)

lemma round_double_error: "\<bar>round_double x - x\<bar> \<le> \<bar>x\<bar> / 2 ^ 53"
proof (cases "x = 0")
  case True
  then show ?thesis by (simp add: round_double_def)
next
  case False
  define a where "a = \<bar>x\<bar>"
  define e where "e = binade a - 52"
  define z where "z = a / 2 powi e"
  define m where "m = round_ties_even z"
  have a: "0 < a" using False by (simp add: a_def)
  have pe: "(0::rat) < 2 powi e" by simp
  have rd: "round_double x = sgn x * of_int m * 2 powi e"
    using False by (simp add: round_double_def Let_def a_def e_def z_def m_def)
  have xa: "x = sgn x * a"
    by (simp add: a_def mult_sgn_abs)
  have az: "a = z * 2 powi e"
    by (simp add: z_def)
  have "round_double x - x = sgn x * ((of_int m - z) * 2 powi e)"
    by (subst (2) xa) (simp add: rd az algebra_simps)
  then have "\<bar>round_double x - x\<bar> = \<bar>of_int m - z\<bar> * 2 powi e"
    using False by (simp add: abs_mult abs_sgn_eq)
  also have "\<dots> \<le> 1 / 2 * 2 powi e"
    using round_ties_even_error [of z] by (intro mult_right_mono) (simp_all add: m_def)
  also have "\<dots> = 2 powi (binade a) / 2 ^ 53"
  proof -
    have "(2::rat) powi e = 2 powi (binade a) / 2 ^ 52"
      by (simp add: e_def power_int_diff)
    then show ?thesis by simp
  qed
  also have "\<dots> \<le> a / 2 ^ 53"
    using binade_bounds(1) [OF a] by (simp add: divide_right_mono)
  finally show ?thesis by (simp add: a_def)
qed

section \<open>Counting in doubles\<close>

text \<open>
  A positive integer up to \<open>2 ^ 53\<close> is a double, so incrementing a counter below
  \<open>2 ^ 53\<close> is exact; \<open>2 ^ 53 + 1\<close> is not a double, and the double nearest to it is
  \<open>2 ^ 53\<close>.
\<close>

lemma round_ties_even_of_int: "round_ties_even (of_int k) = k"
  by (simp add: round_ties_even_def)

lemma round_double_of_int:
  assumes "0 < m" and "m \<le> 2 ^ 53"
  shows "round_double (of_int m) = of_int m"
proof -
  define x :: rat where "x = of_int m"
  define b where "b = binade x"
  have x0: "0 < x" using assms(1) by (simp add: x_def)
  have x1: "1 \<le> x" using assms(1) by (simp add: x_def)
  have "(of_int m :: rat) \<le> of_int (2 ^ 53)"
    using assms(2) by (simp only: of_int_le_iff)
  then have x53: "x \<le> 2 ^ 53" by (simp add: x_def)
  have lo: "2 powi b \<le> x" and hi: "x < 2 powi (b + 1)"
    unfolding b_def by (rule binade_bounds [OF x0])+
  have b0: "0 \<le> b"
  proof (rule ccontr)
    assume "\<not> 0 \<le> b"
    then have "b + 1 \<le> 0" by simp
    then have "(2::rat) powi (b + 1) \<le> 2 powi 0"
      by (intro power_int_increasing) simp_all
    with hi x1 show False by simp
  qed
  have b53: "b \<le> 53"
  proof (rule ccontr)
    assume "\<not> b \<le> 53"
    then have "54 \<le> b" by simp
    then have "(2::rat) powi 54 \<le> 2 powi b"
      by (intro power_int_increasing) simp_all
    with lo x53 show False by simp
  qed
  have rd: "round_double x = of_int (round_ties_even (x / 2 powi (b - 52))) * 2 powi (b - 52)"
    using x0 by (simp add: round_double_def Let_def b_def)
  show ?thesis
  proof (cases "b \<le> 52")
    case True
    define k where "k = nat (52 - b)"
    have "b - 52 = - int k" using True by (simp add: k_def)
    then have pw: "(2::rat) powi (b - 52) = 1 / 2 ^ k"
      by (simp add: power_int_minus_divide)
    have "x / 2 powi (b - 52) = of_int (m * 2 ^ k)"
      by (simp add: pw x_def)
    then have "round_ties_even (x / 2 powi (b - 52)) = m * 2 ^ k"
      by (simp only: round_ties_even_of_int)
    then have "round_double x = of_int (m * 2 ^ k) * (1 / 2 ^ k)"
      by (simp only: rd pw)
    also have "\<dots> = of_int m"
      by simp
    finally show ?thesis by (simp only: x_def)
  next
    case False
    with b53 have b: "b = 53" by simp
    from lo x53 have xe: "x = 2 ^ 53" by (simp add: b)
    have "x / 2 powi (b - 52) = of_int (2 ^ 52)"
      by (simp add: xe b)
    then have "round_ties_even (x / 2 powi (b - 52)) = 2 ^ 52"
      by (simp only: round_ties_even_of_int)
    then have "round_double x = of_int (2 ^ 52) * 2 powi (b - 52)"
      by (simp only: rd)
    also have "\<dots> = x"
      by (simp add: xe b)
    finally show ?thesis by (simp only: x_def)
  qed
qed

lemma increment_exact: "n < 2 ^ 53 \<Longrightarrow> increment n = n + 1"
proof -
  assume n: "n < 2 ^ 53"
  have "of_nat n + (1::rat) = of_int (int n + 1)" by simp
  moreover have "round_double (of_int (int n + 1)) = of_int (int n + 1)"
    using n by (intro round_double_of_int) simp_all
  ultimately have "round_double (of_nat n + 1) = of_int (int n + 1)"
    by (simp only:)
  then show ?thesis
    by (simp add: increment_def)
qed

lemma round_double_2_53_plus_1: "round_double 9007199254740993 = 9007199254740992"
  by code_simp

lemma increment_2_53: "increment 9007199254740992 = 9007199254740992"
  by (simp add: increment_def round_double_2_53_plus_1)

lemma counters_exact_iff:
  "counters_exact gs \<longleftrightarrow>
     playerScore gs < 2 ^ 53 \<and> computerScore gs < 2 ^ 53 \<and> gamesPlayed gs < 2 ^ 53
     \<and> wins gs < 2 ^ 53 \<and> losses gs < 2 ^ 53 \<and> ties gs < 2 ^ 53 \<and> currentStreak gs < 2 ^ 53"
  by (auto simp: counters_exact_def counters_at_most_def)

lemma updateGameState_double_exact:
  assumes "counters_exact gs"
  shows "updateGameState_double result gs = updateGameState result gs"
proof -
  from assms have
    "increment (playerScore gs) = playerScore gs + 1"
    "increment (computerScore gs) = computerScore gs + 1"
    "increment (gamesPlayed gs) = gamesPlayed gs + 1"
    "increment (wins gs) = wins gs + 1"
    "increment (losses gs) = losses gs + 1"
    "increment (ties gs) = ties gs + 1"
    "increment (currentStreak gs) = currentStreak gs + 1"
    by (simp_all add: counters_exact_iff increment_exact)
  then show ?thesis
    by (simp add: updateGameState_double_def updateGameState_def Let_def)
qed

lemma increment_0: "increment 0 = 1"
  using increment_exact [of 0] by simp

lemma updateGameState_double_streak:
  "currentStreak gs \<le> bestStreak gs \<Longrightarrow>
   currentStreak (updateGameState_double result gs)
     \<le> bestStreak (updateGameState_double result gs)"
  by (simp add: updateGameState_double_def Let_def)

lemma updateGameState_double_isPlaying:
  "isPlaying (updateGameState_double result gs) = isPlaying gs"
  by (simp add: updateGameState_double_def Let_def)

lemma counters_at_most_updateGameState:
  "counters_at_most n gs \<Longrightarrow> counters_at_most (n + 1) (updateGameState result gs)"
  by (simp add: counters_at_most_def updateGameState_def Let_def)

lemma recordRounds_double_exact:
  assumes "counters_at_most n gs" and "n + length results \<le> 2 ^ 53"
  shows "recordRounds_double results gs = recordRounds results gs
         \<and> counters_at_most (n + length results) (recordRounds results gs)"
  using assms
proof (induction results arbitrary: n gs)
  case Nil
  then show ?case by simp
next
  case (Cons r rs)
  from Cons.prems(2) have n: "n \<le> 2 ^ 53 - 1" and rest: "(n + 1) + length rs \<le> 2 ^ 53"
    by simp_all
  from Cons.prems(1) n have "counters_exact gs"
    by (auto simp: counters_exact_def counters_at_most_def)
  then have step: "updateGameState_double r gs = updateGameState r gs"
    by (rule updateGameState_double_exact)
  from Cons.IH [OF counters_at_most_updateGameState [OF Cons.prems(1), of r] rest]
  show ?case
    by (simp add: step)
qed

lemma counters_at_most_init: "counters_at_most 0 gameState_init"
  by (simp add: counters_at_most_def gameState_init_def)

text \<open>
  Claim C5 says that every call of \<open>updateGameState\<close> adds one to \<open>gamesPlayed\<close> and,
  on a tie, to \<open>ties\<close>. In a state whose \<open>gamesPlayed\<close> and \<open>ties\<close> are \<open>2 ^ 53\<close>
  (restored from a stored item, with a round in progress), a call with the tie result
  leaves both as they are: the call changes nothing.
\<close>

theorem updateGameState_stalls_at_2_53:
  "updateGameState_double RESULTS_TIE
     \<lparr>playerScore = 0, computerScore = 0, gamesPlayed = 9007199254740992, wins = 0, losses = 0,
      ties = 9007199254740992, currentStreak = 0, bestStreak = 0, isPlaying = True\<rparr>
   = \<lparr>playerScore = 0, computerScore = 0, gamesPlayed = 9007199254740992, wins = 0, losses = 0,
      ties = 9007199254740992, currentStreak = 0, bestStreak = 0, isPlaying = True\<rparr>"
  by (simp add: updateGameState_double_def Let_def RESULTS_distinct increment_2_53)

text \<open>
  Claim C5, amended. While every counter that \<open>updateGameState\<close> increments is below
  \<open>2 ^ 53\<close>, one call of \<open>updateGameState\<close>, counting in doubles as the source does,
  performs the transition table: on a win it adds one to \<open>playerScore\<close>, \<open>wins\<close> and
  \<open>currentStreak\<close> and sets \<open>bestStreak\<close> to the maximum of \<open>bestStreak\<close> and the new
  \<open>currentStreak\<close>; on a loss it adds one to \<open>computerScore\<close> and \<open>losses\<close> and sets
  \<open>currentStreak\<close> to 0; on a tie it adds one to \<open>ties\<close>; every field not named is
  unchanged, and \<open>gamesPlayed\<close> grows by one on every call, whatever the result. Every
  state that fewer than \<open>2 ^ 53\<close> recorded rounds reach from the zero state has its
  counters below \<open>2 ^ 53\<close>.
\<close>

theorem updateGameState_double_transition_table:
  "(counters_exact gs \<longrightarrow>
      updateGameState_double RESULTS_WIN gs =
        gs\<lparr>gamesPlayed := gamesPlayed gs + 1, playerScore := playerScore gs + 1,
           wins := wins gs + 1, currentStreak := currentStreak gs + 1,
           bestStreak := max (bestStreak gs) (currentStreak gs + 1)\<rparr>
      \<and> updateGameState_double RESULTS_LOSE gs =
        gs\<lparr>gamesPlayed := gamesPlayed gs + 1, computerScore := computerScore gs + 1,
           losses := losses gs + 1, currentStreak := 0\<rparr>
      \<and> updateGameState_double RESULTS_TIE gs =
        gs\<lparr>gamesPlayed := gamesPlayed gs + 1, ties := ties gs + 1\<rparr>
      \<and> gamesPlayed (updateGameState_double result gs) = gamesPlayed gs + 1)
   \<and> (length results < 2 ^ 53 \<longrightarrow>
        counters_exact (recordRounds_double results gameState_init))"
proof -
  have table: "counters_exact gs \<longrightarrow>
      updateGameState_double RESULTS_WIN gs =
        gs\<lparr>gamesPlayed := gamesPlayed gs + 1, playerScore := playerScore gs + 1,
           wins := wins gs + 1, currentStreak := currentStreak gs + 1,
           bestStreak := max (bestStreak gs) (currentStreak gs + 1)\<rparr>
      \<and> updateGameState_double RESULTS_LOSE gs =
        gs\<lparr>gamesPlayed := gamesPlayed gs + 1, computerScore := computerScore gs + 1,
           losses := losses gs + 1, currentStreak := 0\<rparr>
      \<and> updateGameState_double RESULTS_TIE gs =
        gs\<lparr>gamesPlayed := gamesPlayed gs + 1, ties := ties gs + 1\<rparr>
      \<and> gamesPlayed (updateGameState_double result gs) = gamesPlayed gs + 1"
  proof
    assume ex: "counters_exact gs"
    have "gamesPlayed (updateGameState result gs) = gamesPlayed gs + 1"
      by (simp add: updateGameState_def Let_def)
    then show "updateGameState_double RESULTS_WIN gs =
        gs\<lparr>gamesPlayed := gamesPlayed gs + 1, playerScore := playerScore gs + 1,
           wins := wins gs + 1, currentStreak := currentStreak gs + 1,
           bestStreak := max (bestStreak gs) (currentStreak gs + 1)\<rparr>
      \<and> updateGameState_double RESULTS_LOSE gs =
        gs\<lparr>gamesPlayed := gamesPlayed gs + 1, computerScore := computerScore gs + 1,
           losses := losses gs + 1, currentStreak := 0\<rparr>
      \<and> updateGameState_double RESULTS_TIE gs =
        gs\<lparr>gamesPlayed := gamesPlayed gs + 1, ties := ties gs + 1\<rparr>
      \<and> gamesPlayed (updateGameState_double result gs) = gamesPlayed gs + 1"
      by (simp only: updateGameState_double_exact [OF ex] updateGameState_win
          updateGameState_lose updateGameState_tie simp_thms)
  qed
  have reach: "length results < 2 ^ 53 \<longrightarrow>
        counters_exact (recordRounds_double results gameState_init)"
  proof
    assume len: "length results < 2 ^ 53"
    then have "0 + length results \<le> 2 ^ 53" by simp
    from recordRounds_double_exact [OF counters_at_most_init this]
    have "counters_at_most (length results) (recordRounds_double results gameState_init)"
      by simp
    with len show "counters_exact (recordRounds_double results gameState_init)"
      by (auto simp: counters_exact_def counters_at_most_def)
  qed
  from table reach show ?thesis by blast
qed

theorem updateGameState_double_transition_table_witness:
  "counters_exact gameState_init
   \<and> updateGameState_double RESULTS_WIN gameState_init
       = \<lparr>playerScore = 1, computerScore = 0, gamesPlayed = 1, wins = 1, losses = 0,
          ties = 0, currentStreak = 1, bestStreak = 1, isPlaying = False\<rparr>
   \<and> updateGameState_double RESULTS_LOSE gameState_init
       = \<lparr>playerScore = 0, computerScore = 1, gamesPlayed = 1, wins = 0, losses = 1,
          ties = 0, currentStreak = 0, bestStreak = 0, isPlaying = False\<rparr>
   \<and> updateGameState_double RESULTS_TIE gameState_init
       = \<lparr>playerScore = 0, computerScore = 0, gamesPlayed = 1, wins = 0, losses = 0,
          ties = 1, currentStreak = 0, bestStreak = 0, isPlaying = False\<rparr>
   \<and> length [RESULTS_WIN, RESULTS_TIE] < (2::nat) ^ 53
   \<and> counters_exact (recordRounds_double [RESULTS_WIN, RESULTS_TIE] gameState_init)"
proof -
  have ex: "counters_exact gameState_init"
    by (simp add: counters_exact_iff gameState_init_def)
  have len: "length [RESULTS_WIN, RESULTS_TIE] < (2::nat) ^ 53"
    by simp
  note t = updateGameState_double_transition_table
    [of gameState_init RESULTS_WIN "[RESULTS_WIN, RESULTS_TIE]"]
  from t len have reach: "counters_exact (recordRounds_double [RESULTS_WIN, RESULTS_TIE] gameState_init)"
    by blast
  from t ex have
    "updateGameState_double RESULTS_WIN gameState_init
       = \<lparr>playerScore = 1, computerScore = 0, gamesPlayed = 1, wins = 1, losses = 0,
          ties = 0, currentStreak = 1, bestStreak = 1, isPlaying = False\<rparr>"
    "updateGameState_double RESULTS_LOSE gameState_init
       = \<lparr>playerScore = 0, computerScore = 1, gamesPlayed = 1, wins = 0, losses = 1,
          ties = 0, currentStreak = 0, bestStreak = 0, isPlaying = False\<rparr>"
    "updateGameState_double RESULTS_TIE gameState_init
       = \<lparr>playerScore = 0, computerScore = 0, gamesPlayed = 1, wins = 0, losses = 0,
          ties = 1, currentStreak = 0, bestStreak = 0, isPlaying = False\<rparr>"
    by (simp_all add: gameState_init_def)
  with ex len reach show ?thesis
    by blast
qed

section \<open>Streaks\<close>

lemma updateGameState_streak:
  "currentStreak gs \<le> bestStreak gs \<Longrightarrow>
   currentStreak (updateGameState result gs) \<le> bestStreak (updateGameState result gs)"
  by (simp add: updateGameState_def Let_def)

lemma updateGameState_isPlaying:
  "isPlaying (updateGameState result gs) = isPlaying gs"
  by (simp add: updateGameState_def Let_def)

lemma game_playRound_streak:
  "currentStreak (game (playRound c p)) = currentStreak (game p)"
  "bestStreak (game (playRound c p)) = bestStreak (game p)"
  by (simp_all add: playRound_def)

lemma game_resetGame:
  "game (resetGame p) =
     (game p)\<lparr>playerScore := 0, computerScore := 0, gamesPlayed := 0, wins := 0,
               losses := 0, ties := 0, currentStreak := 0\<rparr>"
  by (simp add: resetGame_def)

lemma game_playRound_resume:
  "game (playRound_resume pc cc p) =
     (updateGameState_double (determineWinner pc cc) (game p))\<lparr>isPlaying := False\<rparr>"
  by (simp add: playRound_resume_def saveGame_def Let_def)

lemma fire_streak:
  assumes "currentStreak (game p) \<le> bestStreak (game p)"
  shows "currentStreak (game (fire e p)) \<le> bestStreak (game (fire e p))"
proof (cases e)
  case (Click_choice c)
  with assms show ?thesis by (simp add: game_playRound_streak)
next
  case Click_reset
  then show ?thesis by (simp add: game_resetGame)
next
  case (Keydown k)
  with assms show ?thesis
    by (simp add: keydown_def game_playRound_streak game_resetGame)
next
  case (Delay_elapsed cc)
  show ?thesis
  proof (cases "awaiting p")
    case Nil
    with Delay_elapsed assms show ?thesis by simp
  next
    case (Cons pc rest)
    with Delay_elapsed updateGameState_double_streak [OF assms, of "determineWinner pc cc"]
    show ?thesis by (simp add: game_playRound_resume)
  qed
qed

lemma run_streak:
  "currentStreak (game p) \<le> bestStreak (game p) \<Longrightarrow>
   currentStreak (game (run es p)) \<le> bestStreak (game (run es p))"
  by (induction es arbitrary: p) (simp_all add: fire_streak)

text \<open>
  Claim C8. \<open>bestStreak \<ge> currentStreak\<close> holds in the initial zero state, is
  preserved by every call of \<open>updateGameState\<close> whatever the result, holds after
  \<open>resetGame\<close>, and so holds along every sequence of events of a page that starts
  with it.
\<close>

theorem bestStreak_ge_currentStreak:
  "currentStreak gameState_init \<le> bestStreak gameState_init
   \<and> (currentStreak gs \<le> bestStreak gs \<longrightarrow>
        currentStreak (updateGameState result gs) \<le> bestStreak (updateGameState result gs))
   \<and> currentStreak (game (resetGame p)) \<le> bestStreak (game (resetGame p))
   \<and> (currentStreak (game p) \<le> bestStreak (game p) \<longrightarrow>
        currentStreak (game (run es p)) \<le> bestStreak (game (run es p)))"
  by (simp add: gameState_init_def updateGameState_streak game_resetGame run_streak)

theorem bestStreak_ge_currentStreak_witness:
  "currentStreak gameState_init \<le> bestStreak gameState_init
   \<and> currentStreak (updateGameState RESULTS_WIN gameState_init) = 1
   \<and> currentStreak (updateGameState RESULTS_WIN gameState_init)
       \<le> bestStreak (updateGameState RESULTS_WIN gameState_init)
   \<and> currentStreak (game first_visit) \<le> bestStreak (game first_visit)
   \<and> currentStreak (game (run [Click_choice ''rock'', Delay_elapsed ''scissors''] first_visit))
       \<le> bestStreak (game (run [Click_choice ''rock'', Delay_elapsed ''scissors''] first_visit))"
  using bestStreak_ge_currentStreak
    [of gameState_init RESULTS_WIN first_visit "[Click_choice ''rock'', Delay_elapsed ''scissors'']"]
  by (simp add: gameState_init_def first_visit_def updateGameState_win)

section \<open>Reset\<close>

lemma run_win_then_reset:
  "run [Click_choice ''rock'', Delay_elapsed ''scissors'', Click_reset] first_visit
   = \<lparr>game = gameState_init\<lparr>bestStreak := 1\<rparr>, rpsGameState = None, awaiting = []\<rparr>"
  by (simp add: first_visit_def playRound_def playRound_resume_def saveGame_def resetGame_def
      Let_def determineWinner_eval updateGameState_double_def increment_0 gameState_init_def)

text \<open>
  Claim C1 says that \<open>resetGame\<close> leaves every field of the statistics, \<open>bestStreak\<close>
  among them, equal to 0. \<open>resetGame\<close> does not assign \<open>bestStreak\<close>: after one won
  round (the player clicks rock, the computer draws scissors) and a click on the reset
  button, \<open>bestStreak\<close> is still 1 and the state is not the initial state.
\<close>

theorem resetGame_keeps_bestStreak:
  "bestStreak (game (run [Click_choice ''rock'', Delay_elapsed ''scissors'', Click_reset] first_visit)) = 1
   \<and> game (run [Click_choice ''rock'', Delay_elapsed ''scissors'', Click_reset] first_visit)
       \<noteq> gameState_init"
  unfolding run_win_then_reset
  by (simp add: gameState_init_def)

section \<open>Loading the stored state\<close>

lemma init_None: "init None = Inr first_visit"
  by (simp add: init_def loadGame_def first_visit_def)








section \<open>The guard flag\<close>

lemma playRound_ignored: "isPlaying (game p) \<Longrightarrow> playRound c p = p"
  by (simp add: playRound_def)

lemma playRound_starts:
  "\<not> isPlaying (game p) \<Longrightarrow>
   playRound c p = p\<lparr>game := (game p)\<lparr>isPlaying := True\<rparr>, awaiting := awaiting p @ [c]\<rparr>"
  by (simp add: playRound_def)

lemma keydown_ignored: "isPlaying (game p) \<Longrightarrow> keydown k p = p"
  by (simp add: keydown_def)

lemma awaiting_resetGame: "awaiting (resetGame p) = awaiting p"
  by (simp add: resetGame_def)

lemma isPlaying_resetGame: "isPlaying (game (resetGame p)) = isPlaying (game p)"
  by (simp add: resetGame_def)

lemma awaiting_playRound_resume: "awaiting (playRound_resume pc cc p) = awaiting p"
  by (simp add: playRound_resume_def saveGame_def Let_def)

lemma playRound_resume_clears: "\<not> isPlaying (game (playRound_resume pc cc p))"
  by (simp add: game_playRound_resume)

lemma guarded_resetGame: "guarded p \<Longrightarrow> guarded (resetGame p)"
  by (simp add: guarded_def awaiting_resetGame isPlaying_resetGame)

lemma guarded_playRound: "guarded p \<Longrightarrow> guarded (playRound c p)"
  by (cases "isPlaying (game p)") (auto simp: guarded_def playRound_ignored playRound_starts)

lemma guarded_keydown: "guarded p \<Longrightarrow> guarded (keydown k p)"
  by (simp add: keydown_def guarded_playRound guarded_resetGame)

lemma guarded_fire: "guarded p \<Longrightarrow> guarded (fire e p)"
proof (cases e)
  case (Delay_elapsed cc)
  assume g: "guarded p"
  show ?thesis
  proof (cases "awaiting p")
    case Nil
    with Delay_elapsed g show ?thesis by simp
  next
    case (Cons pc rest)
    with g have "rest = []" by (simp add: guarded_def)
    with Cons Delay_elapsed show ?thesis
      by (simp add: guarded_def awaiting_playRound_resume)
  qed
qed (simp_all add: guarded_playRound guarded_resetGame guarded_keydown)

lemma guarded_run: "guarded p \<Longrightarrow> guarded (run es p)"
  by (induction es arbitrary: p) (simp_all add: guarded_fire)

lemma awaiting_loadGame: "loadGame p = Inr p' \<Longrightarrow> awaiting p' = awaiting p"
  by (auto simp: loadGame_def split: option.splits if_splits sum.splits)

lemma guarded_init: "init stored = Inr p0 \<Longrightarrow> guarded p0"
  using awaiting_loadGame [of "\<lparr>game = gameState_init, rpsGameState = stored, awaiting = []\<rparr>" p0]
  by (simp add: init_def guarded_def)

text \<open>
  Claim C9. A call of \<open>playRound\<close> made while \<open>isPlaying\<close> is set returns the page
  unchanged; a call made while it is not set sets it and suspends one round; the
  completion of a round always clears it, so that the next call of \<open>playRound\<close> is
  accepted. On every page that \<open>init\<close> has set up, after any sequence of events at
  most one round is suspended, and while one is, a click on a choice and a key change
  nothing.
\<close>

theorem rounds_do_not_overlap:
  "(isPlaying (game p) \<longrightarrow> playRound c p = p)
   \<and> (\<not> isPlaying (game p) \<longrightarrow>
        isPlaying (game (playRound c p)) \<and> awaiting (playRound c p) = awaiting p @ [c])
   \<and> \<not> isPlaying (game (playRound_resume pc cc p))
   \<and> isPlaying (game (playRound c (playRound_resume pc cc p)))
   \<and> awaiting (playRound c (playRound_resume pc cc p)) = awaiting p @ [c]
   \<and> (init stored = Inr p0 \<longrightarrow>
        length (awaiting (run es p0)) \<le> 1
        \<and> (awaiting (run es p0) \<noteq> [] \<longrightarrow>
             fire (Click_choice c) (run es p0) = run es p0
             \<and> fire (Keydown k) (run es p0) = run es p0))"
proof -
  have a: "isPlaying (game p) \<longrightarrow> playRound c p = p"
    by (simp add: playRound_ignored)
  have b: "\<not> isPlaying (game p) \<longrightarrow>
        isPlaying (game (playRound c p)) \<and> awaiting (playRound c p) = awaiting p @ [c]"
    by (simp add: playRound_starts)
  have d: "isPlaying (game (playRound c (playRound_resume pc cc p)))
      \<and> awaiting (playRound c (playRound_resume pc cc p)) = awaiting p @ [c]"
    by (simp add: playRound_starts [OF playRound_resume_clears] awaiting_playRound_resume)
  have e: "init stored = Inr p0 \<longrightarrow>
        length (awaiting (run es p0)) \<le> 1
        \<and> (awaiting (run es p0) \<noteq> [] \<longrightarrow>
             fire (Click_choice c) (run es p0) = run es p0
             \<and> fire (Keydown k) (run es p0) = run es p0)"
  proof
    assume "init stored = Inr p0"
    then have "guarded (run es p0)"
      by (simp add: guarded_init guarded_run)
    then show "length (awaiting (run es p0)) \<le> 1
        \<and> (awaiting (run es p0) \<noteq> [] \<longrightarrow>
             fire (Click_choice c) (run es p0) = run es p0
             \<and> fire (Keydown k) (run es p0) = run es p0)"
      by (auto simp: guarded_def playRound_ignored keydown_ignored)
  qed
  from a b d e playRound_resume_clears [of pc cc p] show ?thesis
    by blast
qed

theorem rounds_do_not_overlap_witness:
  "init None = Inr first_visit
   \<and> \<not> isPlaying (game first_visit)
   \<and> isPlaying (game (playRound ''rock'' first_visit))
   \<and> playRound ''paper'' (playRound ''rock'' first_visit) = playRound ''rock'' first_visit
   \<and> awaiting (run [Click_choice ''rock'', Click_choice ''paper''] first_visit) = [''rock'']
   \<and> fire (Click_choice ''rock'') (run [Click_choice ''rock'', Click_choice ''paper''] first_visit)
       = run [Click_choice ''rock'', Click_choice ''paper''] first_visit"
proof -
  have ev: "awaiting (run [Click_choice ''rock'', Click_choice ''paper''] first_visit) = [''rock'']"
    by (simp add: playRound_def first_visit_def gameState_init_def)
  have np: "\<not> isPlaying (game first_visit)"
    by (simp add: first_visit_def gameState_init_def)
  have pl: "isPlaying (game (playRound ''rock'' first_visit))"
    by (simp add: playRound_def first_visit_def gameState_init_def)
  from rounds_do_not_overlap [of first_visit "''rock''" "''rock''" "''rock''" None first_visit
      "[Click_choice ''rock'', Click_choice ''paper'']" "''r''"]
    rounds_do_not_overlap [of "playRound ''rock'' first_visit" "''paper''" "''rock''" "''rock''" None first_visit
      "[Click_choice ''rock'', Click_choice ''paper'']" "''r''"]
    init_None ev np pl
  show ?thesis
    by simp
qed

section \<open>The stored guard flag\<close>

lemma guard_saved_stringify: "guard_saved (Some (JSON_stringify g)) = isPlaying g"
  by (simp add: guard_saved_def JSON_stringify_def)

lemma rpsGameState_playRound: "rpsGameState (playRound c p) = rpsGameState p"
  by (simp add: playRound_def)

lemma rpsGameState_resetGame: "rpsGameState (resetGame p) = None"
  by (simp add: resetGame_def)

lemma rpsGameState_keydown:
  "rpsGameState (keydown k p) = rpsGameState p \<or> rpsGameState (keydown k p) = None"
  by (simp add: keydown_def rpsGameState_playRound rpsGameState_resetGame)

lemma rpsGameState_playRound_resume:
  "rpsGameState (playRound_resume pc cc p)
   = Some (JSON_stringify (updateGameState_double (determineWinner pc cc) (game p)))"
  by (simp add: playRound_resume_def saveGame_def Let_def)

lemma guard_saved_fire:
  assumes "guarded p" and "guard_saved (rpsGameState p)"
  shows "guard_saved (rpsGameState (fire e p))"
proof (cases e)
  case (Click_choice c)
  with assms(2) show ?thesis by (simp add: rpsGameState_playRound)
next
  case Click_reset
  then show ?thesis by (simp add: rpsGameState_resetGame guard_saved_def)
next
  case (Keydown k)
  with assms(2) rpsGameState_keydown [of k p] show ?thesis
    by (auto simp: guard_saved_def)
next
  case (Delay_elapsed cc)
  show ?thesis
  proof (cases "awaiting p")
    case Nil
    with Delay_elapsed assms(2) show ?thesis by simp
  next
    case (Cons pc rest)
    with assms(1) have "isPlaying (game p)" by (simp add: guarded_def)
    with Cons Delay_elapsed show ?thesis
      by (simp add: rpsGameState_playRound_resume guard_saved_stringify
          updateGameState_double_isPlaying)
  qed
qed

lemma guard_saved_run:
  "guarded p \<Longrightarrow> guard_saved (rpsGameState p) \<Longrightarrow> guard_saved (rpsGameState (run es p))"
  by (induction es arbitrary: p) (simp_all add: guarded_fire guard_saved_fire)

lemma rpsGameState_loadGame: "loadGame p = Inr p' \<Longrightarrow> rpsGameState p' = rpsGameState p"
  by (auto simp: loadGame_def split: option.splits if_splits sum.splits)

lemma rpsGameState_init: "init stored = Inr p0 \<Longrightarrow> rpsGameState p0 = stored"
  using rpsGameState_loadGame [of "\<lparr>game = gameState_init, rpsGameState = stored, awaiting = []\<rparr>" p0]
  by (simp add: init_def)

lemma Object_assign_stringify:
  "JSON_parse (JSON_stringify g) = Inr obj \<Longrightarrow> Object_assign target obj = g"
  by (auto simp: JSON_stringify_def Object_assign_def)

lemma init_stringify:
  "init (Some (JSON_stringify g))
   = Inr \<lparr>game = g, rpsGameState = Some (JSON_stringify g), awaiting = []\<rparr>"
  by (simp add: init_def loadGame_def JSON_stringify_def Object_assign_def)

lemma init_guard_saved:
  assumes "guard_saved (Some t)" and "init (Some t) = Inr p1"
  shows "isPlaying (game p1) \<and> awaiting p1 = []"
proof -
  from assms(1) obtain obj where obj: "JSON_parse t = Inr obj" "saved_isPlaying obj = Some True"
    by (auto simp: guard_saved_def split: sum.splits)
  then have "t \<noteq> Empty_text" by auto
  with obj assms(2) show ?thesis
    by (auto simp: init_def loadGame_def Object_assign_def)
qed

lemma stuck_fire:
  assumes "stuck p"
  shows "stuck (fire e p) \<and> gamesPlayed (game (fire e p)) \<le> gamesPlayed (game p)"
proof (cases e)
  case (Click_choice c)
  with assms show ?thesis by (simp add: stuck_def playRound_ignored)
next
  case Click_reset
  with assms show ?thesis
    by (simp add: stuck_def awaiting_resetGame isPlaying_resetGame game_resetGame)
next
  case (Keydown k)
  with assms show ?thesis by (simp add: stuck_def keydown_ignored)
next
  case (Delay_elapsed cc)
  with assms show ?thesis by (simp add: stuck_def)
qed

lemma stuck_run:
  "stuck p \<Longrightarrow> stuck (run es p) \<and> gamesPlayed (game (run es p)) \<le> gamesPlayed (game p)"
proof (induction es arbitrary: p)
  case Nil
  then show ?case by simp
next
  case (Cons e es)
  from stuck_fire [OF Cons.prems, of e] Cons.IH [of "fire e p"]
  show ?case by auto
qed

lemma run_first_win:
  "run [Click_choice ''rock'', Delay_elapsed ''scissors''] first_visit
   = \<lparr>game = \<lparr>playerScore = 1, computerScore = 0, gamesPlayed = 1, wins = 1, losses = 0,
               ties = 0, currentStreak = 1, bestStreak = 1, isPlaying = False\<rparr>,
      rpsGameState =
        Some (JSON_stringify
          \<lparr>playerScore = 1, computerScore = 0, gamesPlayed = 1, wins = 1, losses = 0,
           ties = 0, currentStreak = 1, bestStreak = 1, isPlaying = True\<rparr>),
      awaiting = []\<rparr>"
  by (simp add: first_visit_def playRound_def playRound_resume_def saveGame_def
      Let_def determineWinner_eval updateGameState_double_def increment_0 gameState_init_def)

text \<open>
  Claim C10. The stored item always records the flag as set: \<open>saveGame\<close> stores the
  whole game state, \<open>isPlaying\<close> included, and on a page of a first visit, after any
  sequence of events, the stored item is absent or has \<open>isPlaying\<close> set to \<open>true\<close>.
  \<open>init\<close> with a stored game state restores exactly that state. And on a page that
  \<open>init\<close> has set up from a stored item with the flag set, after any sequence of
  events the flag is still set, no round is suspended, a click on a choice and a key
  change nothing, \<open>gamesPlayed\<close> has not grown, and the stored item, if any, still has
  the flag set.
\<close>

theorem saved_guard_blocks_every_round:
  "(init None = Inr p0 \<longrightarrow> guard_saved (rpsGameState (run es p0)))
   \<and> rpsGameState (saveGame p) = Some (JSON_stringify (game p))
   \<and> init (Some (JSON_stringify g))
       = Inr \<lparr>game = g, rpsGameState = Some (JSON_stringify g), awaiting = []\<rparr>
   \<and> (guard_saved (Some t) \<and> init (Some t) = Inr p1 \<longrightarrow>
        isPlaying (game (run es' p1))
        \<and> fire (Click_choice c) (run es' p1) = run es' p1
        \<and> fire (Keydown k) (run es' p1) = run es' p1
        \<and> awaiting (run es' p1) = []
        \<and> gamesPlayed (game (run es' p1)) \<le> gamesPlayed (game p1)
        \<and> guard_saved (rpsGameState (run es' p1)))"
proof -
  have a: "init None = Inr p0 \<longrightarrow> guard_saved (rpsGameState (run es p0))"
  proof
    assume i: "init None = Inr p0"
    then have "guard_saved (rpsGameState p0)"
      by (simp add: rpsGameState_init guard_saved_def)
    with guarded_init [OF i] show "guard_saved (rpsGameState (run es p0))"
      by (rule guard_saved_run)
  qed
  have b: "rpsGameState (saveGame p) = Some (JSON_stringify (game p))"
    by (simp add: saveGame_def)
  have d: "guard_saved (Some t) \<and> init (Some t) = Inr p1 \<longrightarrow>
        isPlaying (game (run es' p1))
        \<and> fire (Click_choice c) (run es' p1) = run es' p1
        \<and> fire (Keydown k) (run es' p1) = run es' p1
        \<and> awaiting (run es' p1) = []
        \<and> gamesPlayed (game (run es' p1)) \<le> gamesPlayed (game p1)
        \<and> guard_saved (rpsGameState (run es' p1))"
  proof
    assume h: "guard_saved (Some t) \<and> init (Some t) = Inr p1"
    then have h1: "guard_saved (Some t)" and h2: "init (Some t) = Inr p1"
      by simp_all
    from init_guard_saved [OF h1 h2] have "stuck p1"
      by (simp add: stuck_def)
    from stuck_run [OF this, of es']
    have s: "isPlaying (game (run es' p1))" "awaiting (run es' p1) = []"
      "gamesPlayed (game (run es' p1)) \<le> gamesPlayed (game p1)"
      by (simp_all add: stuck_def)
    from h1 rpsGameState_init [OF h2] have "guard_saved (rpsGameState p1)"
      by simp
    with guarded_init [OF h2] have g: "guard_saved (rpsGameState (run es' p1))"
      by (rule guard_saved_run)
    from s g show "isPlaying (game (run es' p1))
        \<and> fire (Click_choice c) (run es' p1) = run es' p1
        \<and> fire (Keydown k) (run es' p1) = run es' p1
        \<and> awaiting (run es' p1) = []
        \<and> gamesPlayed (game (run es' p1)) \<le> gamesPlayed (game p1)
        \<and> guard_saved (rpsGameState (run es' p1))"
      by (simp add: playRound_ignored keydown_ignored)
  qed
  from a b d init_stringify [of g] show ?thesis
    by blast
qed

theorem saved_guard_blocks_every_round_witness:
  "init None = Inr first_visit
   \<and> rpsGameState (run [Click_choice ''rock'', Delay_elapsed ''scissors''] first_visit)
       = Some (JSON_stringify
          \<lparr>playerScore = 1, computerScore = 0, gamesPlayed = 1, wins = 1, losses = 0,
           ties = 0, currentStreak = 1, bestStreak = 1, isPlaying = True\<rparr>)
   \<and> guard_saved (rpsGameState (run [Click_choice ''rock'', Delay_elapsed ''scissors''] first_visit))
   \<and> init (Some (JSON_stringify
          \<lparr>playerScore = 1, computerScore = 0, gamesPlayed = 1, wins = 1, losses = 0,
           ties = 0, currentStreak = 1, bestStreak = 1, isPlaying = True\<rparr>))
       = Inr \<lparr>game = \<lparr>playerScore = 1, computerScore = 0, gamesPlayed = 1, wins = 1, losses = 0,
           ties = 0, currentStreak = 1, bestStreak = 1, isPlaying = True\<rparr>,
              rpsGameState = Some (JSON_stringify
          \<lparr>playerScore = 1, computerScore = 0, gamesPlayed = 1, wins = 1, losses = 0,
           ties = 0, currentStreak = 1, bestStreak = 1, isPlaying = True\<rparr>),
              awaiting = []\<rparr>
   \<and> isPlaying (game (run [Click_choice ''paper'', Delay_elapsed ''rock'']
        \<lparr>game = \<lparr>playerScore = 1, computerScore = 0, gamesPlayed = 1, wins = 1, losses = 0,
           ties = 0, currentStreak = 1, bestStreak = 1, isPlaying = True\<rparr>,
              rpsGameState = Some (JSON_stringify
          \<lparr>playerScore = 1, computerScore = 0, gamesPlayed = 1, wins = 1, losses = 0,
           ties = 0, currentStreak = 1, bestStreak = 1, isPlaying = True\<rparr>),
              awaiting = []\<rparr>))
   \<and> gamesPlayed (game (run [Click_choice ''paper'', Delay_elapsed ''rock'']
        \<lparr>game = \<lparr>playerScore = 1, computerScore = 0, gamesPlayed = 1, wins = 1, losses = 0,
           ties = 0, currentStreak = 1, bestStreak = 1, isPlaying = True\<rparr>,
              rpsGameState = Some (JSON_stringify
          \<lparr>playerScore = 1, computerScore = 0, gamesPlayed = 1, wins = 1, losses = 0,
           ties = 0, currentStreak = 1, bestStreak = 1, isPlaying = True\<rparr>),
              awaiting = []\<rparr>)) \<le> 1"
proof -
  let ?g = "\<lparr>playerScore = 1, computerScore = 0, gamesPlayed = 1, wins = 1, losses = 0,
           ties = 0, currentStreak = 1, bestStreak = 1, isPlaying = True\<rparr>"
  let ?p1 = "\<lparr>game = ?g, rpsGameState = Some (JSON_stringify ?g), awaiting = []\<rparr>"
  have gs: "guard_saved (Some (JSON_stringify ?g))"
    by (simp add: guard_saved_stringify)
  from saved_guard_blocks_every_round
    [where ?p0.0 = first_visit and es = "[Click_choice ''rock'', Delay_elapsed ''scissors'']"
       and g = ?g and t = "JSON_stringify ?g" and ?p1.0 = ?p1
       and es' = "[Click_choice ''paper'', Delay_elapsed ''rock'']"]
    init_None gs
  show ?thesis
    unfolding run_first_win by simp
qed

section \<open>The win rate\<close>

lemma doubled_percentage_error:
  fixes x :: rat
  assumes "0 \<le> x" and "x \<le> 1"
  shows "\<bar>round_double (round_double x * 100) - 100 * x\<bar> \<le> 201 / 2 ^ 53"
    and "0 \<le> round_double (round_double x * 100)"
proof -
  define q where "q = round_double x"
  define y where "y = round_double (q * 100)"
  have q0: "0 \<le> q"
    using assms(1) by (simp add: q_def round_double_nonneg)
  have "\<bar>q - x\<bar> \<le> \<bar>x\<bar> / 2 ^ 53"
    unfolding q_def by (rule round_double_error)
  also have "\<dots> \<le> 1 / 2 ^ 53"
    using assms by (simp add: divide_right_mono)
  finally have qx: "\<bar>q - x\<bar> \<le> 1 / 2 ^ 53" .
  then have q1: "q \<le> 1 + 1 / 2 ^ 53"
    using assms(2) by linarith
  have "\<bar>y - q * 100\<bar> \<le> \<bar>q * 100\<bar> / 2 ^ 53"
    unfolding y_def by (rule round_double_error)
  also have "\<dots> = q * (100 / 2 ^ 53)"
    using q0 by simp
  also have "\<dots> \<le> (1 + 1 / 2 ^ 53) * (100 / 2 ^ 53)"
    using q1 by (intro mult_right_mono) simp_all
  also have "\<dots> \<le> 101 / 2 ^ 53"
    by simp
  finally have yq: "\<bar>y - q * 100\<bar> \<le> 101 / 2 ^ 53" .
  have "y - 100 * x = (y - q * 100) + 100 * (q - x)"
    by simp
  then have "\<bar>y - 100 * x\<bar> \<le> \<bar>y - q * 100\<bar> + \<bar>100 * (q - x)\<bar>"
    by (simp only: abs_triangle_ineq)
  moreover have "\<bar>100 * (q - x)\<bar> = 100 * \<bar>q - x\<bar>"
    by (subst abs_mult) simp
  ultimately have "\<bar>y - 100 * x\<bar> \<le> \<bar>y - q * 100\<bar> + 100 * \<bar>q - x\<bar>"
    by (simp only:)
  also have "\<dots> \<le> 101 / 2 ^ 53 + 100 * (1 / 2 ^ 53)"
    using yq qx by (intro add_mono mult_left_mono) simp_all
  also have "\<dots> = 201 / 2 ^ 53"
    by simp
  finally show "\<bar>round_double (round_double x * 100) - 100 * x\<bar> \<le> 201 / 2 ^ 53"
    by (simp add: y_def q_def)
  show "0 \<le> round_double (round_double x * 100)"
    using q0 by (simp add: q_def round_double_nonneg)
qed

lemma floor_near_quotient:
  fixes y t :: rat and n d :: int
  assumes t: "t = of_int n / of_int d" and d: "0 < d"
    and near: "\<bar>y - t\<bar> < 1 / of_int d"
  shows "\<lfloor>y\<rfloor> = \<lfloor>t\<rfloor> \<or> \<lfloor>y\<rfloor> = \<lfloor>t\<rfloor> - 1"
    and "t \<noteq> of_int \<lfloor>t\<rfloor> \<Longrightarrow> \<lfloor>y\<rfloor> = \<lfloor>t\<rfloor>"
proof -
  define R where "R = \<lfloor>t\<rfloor>"
  have drat: "(0::rat) < of_int d" using d by simp
  have td: "t * of_int d = of_int n"
    using drat by (simp add: t)
  have R1: "of_int R \<le> t" and R2: "t < of_int R + 1"
    unfolding R_def by linarith+
  have up: "t + 1 / of_int d \<le> of_int R + 1"
  proof -
    have "t * of_int d < (of_int R + 1) * of_int d"
      using R2 drat by (simp add: mult_less_cancel_right)
    then have "(of_int n :: rat) < of_int ((R + 1) * d)"
      by (simp add: td)
    then have "n < (R + 1) * d"
      by (simp only: of_int_less_iff)
    then have "n + 1 \<le> (R + 1) * d" by simp
    then have "(of_int (n + 1) :: rat) \<le> of_int ((R + 1) * d)"
      by (simp only: of_int_le_iff)
    then have "t * of_int d + 1 \<le> (of_int R + 1) * of_int d"
      by (simp add: td)
    then have "(t + 1 / of_int d) * of_int d \<le> (of_int R + 1) * of_int d"
      using drat by (simp add: algebra_simps)
    then show ?thesis
      using drat by (simp only: mult_le_cancel_right)
  qed
  have y_lt: "y < of_int R + 1"
    using near up by linarith
  have y_ge: "of_int R - 1 \<le> y"
  proof -
    have "1 / of_int d \<le> (1::rat)"
      using d by (simp add: divide_le_eq)
    with near R1 show ?thesis by linarith
  qed
  have "\<lfloor>y\<rfloor> = R \<or> \<lfloor>y\<rfloor> = R - 1"
  proof (cases "of_int R \<le> y")
    case True
    with y_lt have "\<lfloor>y\<rfloor> = R" by linarith
    then show ?thesis by simp
  next
    case False
    with y_ge have "\<lfloor>y\<rfloor> = R - 1" by linarith
    then show ?thesis by simp
  qed
  then show "\<lfloor>y\<rfloor> = \<lfloor>t\<rfloor> \<or> \<lfloor>y\<rfloor> = \<lfloor>t\<rfloor> - 1"
    by (simp add: R_def)
  show "\<lfloor>y\<rfloor> = \<lfloor>t\<rfloor>" if ne: "t \<noteq> of_int \<lfloor>t\<rfloor>"
  proof -
    from ne have "t \<noteq> of_int R" by (simp add: R_def)
    with R1 have "of_int R < t" by linarith
    then have "of_int R * of_int d < t * of_int d"
      using drat by (simp add: mult_less_cancel_right)
    then have "(of_int (R * d) :: rat) < of_int n"
      by (simp add: td)
    then have "R * d < n"
      by (simp only: of_int_less_iff)
    then have "R * d + 1 \<le> n" by simp
    then have "(of_int (R * d + 1) :: rat) \<le> of_int n"
      by (simp only: of_int_le_iff)
    then have "of_int R * of_int d + 1 \<le> t * of_int d"
      by (simp add: td)
    then have "(of_int R + 1 / of_int d) * of_int d \<le> t * of_int d"
      using drat by (simp add: algebra_simps)
    then have "of_int R + 1 / of_int d \<le> t"
      using drat by (simp only: mult_le_cancel_right)
    with near have "of_int R \<le> y" by linarith
    with y_lt have "\<lfloor>y\<rfloor> = R" by linarith
    then show ?thesis by (simp add: R_def)
  qed
qed

lemma third_rounds: "Math_round (round_double (round_double (1 / 3) * 100)) = 33"
  by code_simp

lemma two_thirds_round: "Math_round (round_double (round_double (2 / 3) * 100)) = 67"
  by code_simp

lemma calculateWinRate_range:
  assumes "wins gs \<le> gamesPlayed gs"
  shows "0 \<le> calculateWinRate gs" and "calculateWinRate gs \<le> 100"
proof -
  show "0 \<le> calculateWinRate gs"
  proof (cases "gamesPlayed gs = 0")
    case True
    then show ?thesis by (simp add: calculateWinRate_def)
  next
    case False
    define x :: rat where "x = of_nat (wins gs) / of_nat (gamesPlayed gs)"
    have x: "0 \<le> x" "x \<le> 1"
      using assms False by (simp_all add: x_def divide_le_eq)
    from doubled_percentage_error(2) [OF x]
    have "0 \<le> \<lfloor>round_double (round_double x * 100) + 1 / 2\<rfloor>"
      by simp
    with False show ?thesis
      by (simp add: calculateWinRate_def Let_def Math_round_def x_def)
  qed
  show "calculateWinRate gs \<le> 100"
  proof (cases "gamesPlayed gs = 0")
    case True
    then show ?thesis by (simp add: calculateWinRate_def)
  next
    case False
    define x :: rat where "x = of_nat (wins gs) / of_nat (gamesPlayed gs)"
    define y where "y = round_double (round_double x * 100)"
    have x: "0 \<le> x" "x \<le> 1"
      using assms False by (simp_all add: x_def divide_le_eq)
    from doubled_percentage_error(1) [OF x]
    have "\<bar>y - 100 * x\<bar> \<le> 201 / 2 ^ 53"
      by (simp add: y_def)
    moreover have "(201::rat) / 2 ^ 53 < 1 / 2" by simp
    ultimately have "y + 1 / 2 < 101"
      using x(2) by linarith
    then have "\<lfloor>y + 1 / 2\<rfloor> \<le> 100"
      by (simp add: floor_le_iff)
    with False show ?thesis
      by (simp add: calculateWinRate_def Let_def Math_round_def x_def y_def)
  qed
qed

lemma calculateWinRate_vs_spec:
  assumes g: "0 < gamesPlayed gs" and w: "wins gs \<le> gamesPlayed gs"
    and small: "gamesPlayed gs \<le> 2 ^ 44"
  shows "calculateWinRate gs = winRate_spec gs \<or> calculateWinRate gs = winRate_spec gs - 1"
    and "frac (100 * of_nat (wins gs) / of_nat (gamesPlayed gs) :: rat) \<noteq> 1 / 2 \<Longrightarrow>
         calculateWinRate gs = winRate_spec gs"
proof -
  define x :: rat where "x = of_nat (wins gs) / of_nat (gamesPlayed gs)"
  define y where "y = round_double (round_double x * 100)"
  define n :: int where "n = int (200 * wins gs + gamesPlayed gs)"
  define d :: int where "d = int (2 * gamesPlayed gs)"
  define t :: rat where "t = 100 * x + 1 / 2"
  have grat: "(0::rat) < of_nat (gamesPlayed gs)" using g by simp
  have x: "0 \<le> x" "x \<le> 1"
    using g w by (simp_all add: x_def divide_le_eq)
  have d: "0 < d" using g by (simp add: d_def)
  have t: "t = of_int n / of_int d"
    using grat by (simp add: t_def x_def n_def d_def field_simps)
  have cw: "calculateWinRate gs = \<lfloor>y + 1 / 2\<rfloor>"
    using g by (simp add: calculateWinRate_def Let_def Math_round_def x_def y_def)
  have sp: "winRate_spec gs = \<lfloor>t\<rfloor>"
    using g by (simp add: winRate_spec_def round_half_up_def t_def x_def)
  have "(of_int d :: rat) \<le> 2 ^ 45"
  proof -
    have "d \<le> 2 ^ 45" using small by (simp add: d_def)
    then have "(of_int d :: rat) \<le> of_int (2 ^ 45)" by (simp only: of_int_le_iff)
    then show ?thesis by simp
  qed
  then have "1 / (2 ^ 45 :: rat) \<le> 1 / of_int d"
    using d by (intro divide_left_mono) simp_all
  moreover have "(201::rat) / 2 ^ 53 < 1 / 2 ^ 45" by simp
  moreover have "\<bar>y - 100 * x\<bar> \<le> 201 / 2 ^ 53"
    using doubled_percentage_error(1) [OF x] by (simp add: y_def)
  ultimately have near: "\<bar>(y + 1 / 2) - t\<bar> < 1 / of_int d"
    by (simp add: t_def)
  from floor_near_quotient(1) [OF t d near]
  show "calculateWinRate gs = winRate_spec gs \<or> calculateWinRate gs = winRate_spec gs - 1"
    by (simp add: cw sp)
  show "calculateWinRate gs = winRate_spec gs"
    if nh: "frac (100 * of_nat (wins gs) / of_nat (gamesPlayed gs) :: rat) \<noteq> 1 / 2"
  proof -
    have "t \<noteq> of_int \<lfloor>t\<rfloor>"
    proof
      assume eq: "t = of_int \<lfloor>t\<rfloor>"
      then have "100 * x - 1 / 2 = of_int (\<lfloor>t\<rfloor> - 1)"
        by (simp add: t_def)
      then have "100 * x - 1 / 2 \<in> \<int>"
        by (simp only: Ints_of_int)
      then have "frac (100 * x) = 1 / 2"
        using frac_unique_iff [of "100 * x" "1 / 2"] by simp
      with nh show False by (simp add: x_def)
    qed
    from floor_near_quotient(2) [OF t d near this]
    show ?thesis by (simp add: cw sp)
  qed
qed

lemma updateGameState_wins_le:
  "wins gs \<le> gamesPlayed gs \<Longrightarrow>
   wins (updateGameState result gs) \<le> gamesPlayed (updateGameState result gs)"
  by (simp add: updateGameState_def Let_def)

lemma recordRounds_wins_le:
  "wins gs \<le> gamesPlayed gs \<Longrightarrow>
   wins (recordRounds results gs) \<le> gamesPlayed (recordRounds results gs)"
  by (induction results arbitrary: gs) (simp_all add: updateGameState_wins_le)

lemma recordRounds_append:
  "recordRounds (rs @ rs') gs = recordRounds rs' (recordRounds rs gs)"
  by (induction rs arbitrary: gs) simp_all

lemma recordRounds_replicate_win:
  "wins (recordRounds (replicate n RESULTS_WIN) gs) = wins gs + n
   \<and> gamesPlayed (recordRounds (replicate n RESULTS_WIN) gs) = gamesPlayed gs + n"
  by (induction n arbitrary: gs) (simp_all add: updateGameState_win)

lemma recordRounds_replicate_lose:
  "wins (recordRounds (replicate n RESULTS_LOSE) gs) = wins gs
   \<and> gamesPlayed (recordRounds (replicate n RESULTS_LOSE) gs) = gamesPlayed gs + n"
  by (induction n arbitrary: gs) (simp_all add: updateGameState_lose)

lemma wins_23_of_40:
  "wins (recordRounds (replicate 23 RESULTS_WIN @ replicate 17 RESULTS_LOSE) gameState_init) = 23"
  "gamesPlayed (recordRounds (replicate 23 RESULTS_WIN @ replicate 17 RESULTS_LOSE) gameState_init) = 40"
  by (simp_all only: recordRounds_append recordRounds_replicate_win recordRounds_replicate_lose)
    (simp_all add: gameState_init_def)

lemma double_23_of_40: "Math_round (round_double (round_double (23 / 40) * 100)) = 57"
  by code_simp

text \<open>
  Claim C6 says that \<open>calculateWinRate\<close> returns \<open>100 * wins / gamesPlayed\<close> rounded
  half up. After 23 wins and 17 losses the exact percentage is 57.5, which rounds half
  up to 58. The source divides first: the double nearest to \<open>23 / 40\<close> is below
  \<open>23 / 40\<close>, its product with 100 is the double just below 57.5, and \<open>Math.round\<close>
  returns 57.
\<close>

theorem calculateWinRate_below_half_up:
  "calculateWinRate
     (recordRounds (replicate 23 RESULTS_WIN @ replicate 17 RESULTS_LOSE) gameState_init) = 57
   \<and> winRate_spec
     (recordRounds (replicate 23 RESULTS_WIN @ replicate 17 RESULTS_LOSE) gameState_init) = 58"
proof -
  have "(100 * 23 / 40 :: rat) + 1 / 2 = 58" by simp
  then have "round_half_up (100 * 23 / 40) = 58"
    by (simp only: round_half_up_def floor_numeral)
  then show ?thesis
    by (simp add: calculateWinRate_def winRate_spec_def Let_def wins_23_of_40 double_23_of_40)
qed

text \<open>
  Claim C6, amended. \<open>calculateWinRate\<close> returns 0 when \<open>gamesPlayed\<close> is 0. Otherwise
  it returns \<open>Math.round\<close> of the double \<open>(wins / gamesPlayed) * 100\<close>; for
  \<open>wins \<le> gamesPlayed \<le> 2 ^ 44\<close> this is \<open>100 * wins / gamesPlayed\<close> rounded half up
  whenever the exact percentage is not half-way between two integers, and that value or
  one less when it is. One win in three games gives 33, two wins in three give 67.
  Whenever \<open>wins \<le> gamesPlayed\<close>, which holds after every sequence of recorded rounds,
  the result is between 0 and 100.
\<close>

theorem calculateWinRate_double_rounding:
  "(gamesPlayed gs = 0 \<longrightarrow> calculateWinRate gs = 0)
   \<and> (0 < gamesPlayed gs \<and> wins gs \<le> gamesPlayed gs \<and> gamesPlayed gs \<le> 2 ^ 44 \<longrightarrow>
        (frac (100 * of_nat (wins gs) / of_nat (gamesPlayed gs) :: rat) \<noteq> 1 / 2 \<longrightarrow>
           calculateWinRate gs = winRate_spec gs)
        \<and> (calculateWinRate gs = winRate_spec gs \<or> calculateWinRate gs = winRate_spec gs - 1))
   \<and> (wins gs = 1 \<and> gamesPlayed gs = 3 \<longrightarrow> calculateWinRate gs = 33)
   \<and> (wins gs = 2 \<and> gamesPlayed gs = 3 \<longrightarrow> calculateWinRate gs = 67)
   \<and> (wins gs \<le> gamesPlayed gs \<longrightarrow> 0 \<le> calculateWinRate gs \<and> calculateWinRate gs \<le> 100)
   \<and> wins (recordRounds results gameState_init) \<le> gamesPlayed (recordRounds results gameState_init)
   \<and> 0 \<le> calculateWinRate (recordRounds results gameState_init)
   \<and> calculateWinRate (recordRounds results gameState_init) \<le> 100"
proof -
  have a: "gamesPlayed gs = 0 \<longrightarrow> calculateWinRate gs = 0"
    by (simp add: calculateWinRate_def)
  have b: "0 < gamesPlayed gs \<and> wins gs \<le> gamesPlayed gs \<and> gamesPlayed gs \<le> 2 ^ 44 \<longrightarrow>
        (frac (100 * of_nat (wins gs) / of_nat (gamesPlayed gs) :: rat) \<noteq> 1 / 2 \<longrightarrow>
           calculateWinRate gs = winRate_spec gs)
        \<and> (calculateWinRate gs = winRate_spec gs \<or> calculateWinRate gs = winRate_spec gs - 1)"
    using calculateWinRate_vs_spec [of gs] by blast
  have c: "wins gs = 1 \<and> gamesPlayed gs = 3 \<longrightarrow> calculateWinRate gs = 33"
    by (simp add: calculateWinRate_def Let_def third_rounds)
  have d: "wins gs = 2 \<and> gamesPlayed gs = 3 \<longrightarrow> calculateWinRate gs = 67"
    by (simp add: calculateWinRate_def Let_def two_thirds_round)
  have e: "wins gs \<le> gamesPlayed gs \<longrightarrow> 0 \<le> calculateWinRate gs \<and> calculateWinRate gs \<le> 100"
    using calculateWinRate_range [of gs] by blast
  have f: "wins (recordRounds results gameState_init)
             \<le> gamesPlayed (recordRounds results gameState_init)"
    by (rule recordRounds_wins_le) (simp add: gameState_init_def)
  from a b c d e f calculateWinRate_range [OF f] show ?thesis
    by blast
qed

theorem calculateWinRate_double_rounding_witness:
  "0 < gamesPlayed (recordRounds [RESULTS_WIN, RESULTS_LOSE, RESULTS_TIE] gameState_init)
   \<and> wins (recordRounds [RESULTS_WIN, RESULTS_LOSE, RESULTS_TIE] gameState_init) = 1
   \<and> gamesPlayed (recordRounds [RESULTS_WIN, RESULTS_LOSE, RESULTS_TIE] gameState_init) = 3
   \<and> gamesPlayed (recordRounds [RESULTS_WIN, RESULTS_LOSE, RESULTS_TIE] gameState_init) \<le> 2 ^ 44
   \<and> frac (100 * 1 / 3 :: rat) \<noteq> 1 / 2
   \<and> calculateWinRate (recordRounds [RESULTS_WIN, RESULTS_LOSE, RESULTS_TIE] gameState_init) = 33
   \<and> winRate_spec (recordRounds [RESULTS_WIN, RESULTS_LOSE, RESULTS_TIE] gameState_init) = 33"
proof -
  let ?gs = "recordRounds [RESULTS_WIN, RESULTS_LOSE, RESULTS_TIE] gameState_init"
  have w: "wins ?gs = 1" and g: "gamesPlayed ?gs = 3"
    by (simp_all add: updateGameState_win updateGameState_lose updateGameState_tie
        gameState_init_def)
  have "\<lfloor>100 / 3 :: rat\<rfloor> = 33"
    by (rule floor_unique) simp_all
  then have fr: "frac (100 * 1 / 3 :: rat) \<noteq> 1 / 2"
    by (simp add: frac_def)
  have small: "(3::nat) \<le> 2 ^ 44" by simp
  from calculateWinRate_double_rounding [of ?gs "[]"] w g fr small
  show ?thesis
    by simp
qed

end
